theory Spec2Isabelle
  imports Complex_Main "HOL-Library.Word" "HOL-Library.Sublist"
begin

section \<open>TextGen.js: a client of a local chat endpoint\<close>

text \<open>
  The module \<^verbatim>\<open>src/TextGen.js\<close> builds chat payloads, posts them to a fixed local
  endpoint, and searches the reply for a JSON array stored under the key \<^verbatim>\<open>"test"\<close>.
  Everything the module does to the outside (the call of \<^verbatim>\<open>fetch\<close>, the lines written
  to the console) is recorded in an explicit list of events; everything the outside does
  to the module (the answer of the endpoint, the contents of the file system) is a field
  of an environment record. A JavaScript exception is the left summand of a result.
  \<^verbatim>\<open>await\<close> is sequencing: each operation runs on one logical thread.
\<close>

subsection \<open>Strings and values of the language\<close>

text \<open>A JavaScript string is a sequence of 16-bit code units.\<close>

type_synonym code_unit = "16 word"
type_synonym js_string = "code_unit list"

definition js :: "string \<Rightarrow> js_string" where
  "js s = map (\<lambda>c. of_nat (of_char c)) s"

text \<open>
  The values that occur: \<^verbatim>\<open>undefined\<close>, \<^verbatim>\<open>null\<close>, and what \<^verbatim>\<open>JSON.parse\<close> can
  build. A number is the exact rational its literal denotes (rounding to a double and the
  sign of zero are left out); an object is its list of properties in source order, a
  later binding of a name hiding an earlier one.
\<close>

datatype js_value =
    Undefined
  | Null
  | Bool bool
  | Number rat
  | String js_string
  | Array "js_value list"
  | Object "(js_string \<times> js_value) list"

datatype js_error =
    Error js_string
  | TypeError js_string
  | SyntaxError js_string
  | SystemError js_string

text \<open>
  Reading a property \<^verbatim>\<open>v.name\<close>, for a name that no prototype defines (the module
  reads \<^verbatim>\<open>message\<close> and \<^verbatim>\<open>content\<close> only): on \<^verbatim>\<open>null\<close> and \<^verbatim>\<open>undefined\<close> the
  read throws, on an object it looks the name up, on every other value it gives
  \<^verbatim>\<open>undefined\<close>.
\<close>

fun get_prop :: "js_value \<Rightarrow> js_string \<Rightarrow> js_error + js_value" where
  "get_prop Undefined name = Inl (TypeError (js ''Cannot read properties of undefined''))"
| "get_prop Null name = Inl (TypeError (js ''Cannot read properties of null''))"
| "get_prop (Object props) name =
     Inr (case map_of (rev props) name of None \<Rightarrow> Undefined | Some v \<Rightarrow> v)"
| "get_prop v name = Inr Undefined"

subsection \<open>The request payload and its serialization\<close>

record turn =
  role :: js_string
  content :: js_string

record payload =
  model :: js_string
  messages :: "turn list"
  stream :: bool

text \<open>
  \<^verbatim>\<open>JSON.stringify\<close> on a payload: the properties in insertion order, no white space,
  strings quoted as the language standard prescribes (two-character escapes for the
  quote, the backslash and five control characters, \<^verbatim>\<open>\uXXXX\<close> with lower-case digits
  for the other control characters and for a surrogate without its partner).
\<close>

definition hex_digit :: "nat \<Rightarrow> code_unit" where
  "hex_digit n = (if n < 10 then 0x30 + of_nat n else 0x61 + of_nat (n - 10))"

definition unicode_escape :: "code_unit \<Rightarrow> js_string" where
  "unicode_escape c =
     [0x5C, 0x75,
      hex_digit (unat c div 4096), hex_digit (unat c div 256 mod 16),
      hex_digit (unat c div 16 mod 16), hex_digit (unat c mod 16)]"

definition is_high_surrogate :: "code_unit \<Rightarrow> bool" where
  "is_high_surrogate c \<longleftrightarrow> 0xD800 \<le> c \<and> c \<le> 0xDBFF"

definition is_low_surrogate :: "code_unit \<Rightarrow> bool" where
  "is_low_surrogate c \<longleftrightarrow> 0xDC00 \<le> c \<and> c \<le> 0xDFFF"

fun quote_chars :: "js_string \<Rightarrow> js_string" where
  "quote_chars [] = []"
| "quote_chars (c # cs) =
     (if c = 0x08 then [0x5C, 0x62] @ quote_chars cs
      else if c = 0x09 then [0x5C, 0x74] @ quote_chars cs
      else if c = 0x0A then [0x5C, 0x6E] @ quote_chars cs
      else if c = 0x0C then [0x5C, 0x66] @ quote_chars cs
      else if c = 0x0D then [0x5C, 0x72] @ quote_chars cs
      else if c = 0x22 then [0x5C, 0x22] @ quote_chars cs
      else if c = 0x5C then [0x5C, 0x5C] @ quote_chars cs
      else if c < 0x20 then unicode_escape c @ quote_chars cs
      else if is_high_surrogate c then
        (case cs of
           [] \<Rightarrow> unicode_escape c
         | d # ds \<Rightarrow>
             if is_low_surrogate d then c # d # quote_chars ds
             else unicode_escape c @ quote_chars cs)
      else if is_low_surrogate c then unicode_escape c @ quote_chars cs
      else c # quote_chars cs)"

definition quote_json_string :: "js_string \<Rightarrow> js_string" where
  "quote_json_string s = [0x22] @ quote_chars s @ [0x22]"

definition stringify_turn :: "turn \<Rightarrow> js_string" where
  "stringify_turn t =
     js ''{\"role\":'' @ quote_json_string (role t) @
     js '',\"content\":'' @ quote_json_string (content t) @ js ''}''"

fun join_comma :: "js_string list \<Rightarrow> js_string" where
  "join_comma [] = []"
| "join_comma [x] = x"
| "join_comma (x # y # ys) = x @ [0x2C] @ join_comma (y # ys)"

definition JSON_stringify :: "payload \<Rightarrow> js_string" where
  "JSON_stringify p =
     js ''{\"model\":'' @ quote_json_string (model p) @
     js '',\"messages\":['' @ join_comma (map stringify_turn (messages p)) @
     js ''],\"stream\":'' @ (if stream p then js ''true'' else js ''false'') @ js ''}''"

subsection \<open>The outside world\<close>

record http_request =
  url :: js_string
  http_method :: js_string
  headers :: "(js_string \<times> js_string) list"
  body :: js_string

text \<open>
  A response carries the flag \<^verbatim>\<open>response.ok\<close> and what \<^verbatim>\<open>response.json()\<close> settles
  to. \<^verbatim>\<open>fetch\<close> either rejects with an error or resolves with a response.
\<close>

record response =
  ok :: bool
  json :: "js_error + js_value"

datatype fetch_result = Rejects js_error | Resolves response

record env =
  fetch :: "http_request \<Rightarrow> fetch_result"
  readFile :: "js_string \<Rightarrow> js_string \<Rightarrow> js_error + js_string"

datatype event =
    Fetch http_request
  | Console_error js_string "js_error option"
  | Console_log js_value

type_synonym world = "event list"
type_synonym 'a io = "world \<Rightarrow> (js_error + 'a) \<times> world"

definition succeed :: "'a \<Rightarrow> 'a io" where
  "succeed v w = (Inr v, w)"

definition throw :: "js_error \<Rightarrow> 'a io" where
  "throw e w = (Inl e, w)"

definition settle :: "js_error + 'a \<Rightarrow> 'a io" where
  "settle r w = (r, w)"

definition emit :: "event \<Rightarrow> unit io" where
  "emit ev w = (Inr (), w @ [ev])"

definition and_then :: "'a io \<Rightarrow> ('a \<Rightarrow> 'b io) \<Rightarrow> 'b io" where
  "and_then m f w = (case m w of (Inl e, w') \<Rightarrow> (Inl e, w') | (Inr v, w') \<Rightarrow> f v w')"

definition try_catch :: "'a io \<Rightarrow> (js_error \<Rightarrow> 'a io) \<Rightarrow> 'a io" where
  "try_catch m handler w =
     (case m w of (Inl e, w') \<Rightarrow> handler e w' | (Inr v, w') \<Rightarrow> (Inr v, w'))"

subsection \<open>The dispatcher\<close>

definition endpoint :: js_string where
  "endpoint = js ''http://localhost:11434/api/chat''"

definition post_request :: "payload \<Rightarrow> http_request" where
  "post_request p =
     \<lparr>url = endpoint,
      http_method = js ''POST'',
      headers = [(js ''Content-Type'', js ''application/json'')],
      body = JSON_stringify p\<rparr>"

definition call_fetch :: "env \<Rightarrow> http_request \<Rightarrow> response io" where
  "call_fetch e req =
     and_then (emit (Fetch req))
       (\<lambda>_. case fetch e req of Rejects err \<Rightarrow> throw err | Resolves r \<Rightarrow> succeed r)"

definition makeRequest :: "env \<Rightarrow> payload \<Rightarrow> js_value io" where
  "makeRequest e p =
     try_catch
       (and_then (call_fetch e (post_request p))
          (\<lambda>response.
             if \<not> ok response then throw (Error (js ''Network response was not ok''))
             else and_then (settle (json response)) (\<lambda>data. succeed data)))
       (\<lambda>error. and_then (emit (Console_error (js ''Error:'') (Some error)))
          (\<lambda>_. succeed Null))"

subsection \<open>Code suggestions\<close>

definition loadFileToString :: "env \<Rightarrow> js_string \<Rightarrow> js_value io" where
  "loadFileToString e filePath =
     try_catch
       (and_then (settle (readFile e filePath (js ''utf8'')))
          (\<lambda>fileContents. succeed (String fileContents)))
       (\<lambda>error. and_then (emit (Console_error (js ''Error reading file:'') (Some error)))
          (\<lambda>_. succeed Null))"

definition codeSuggestions_payload :: "js_string \<Rightarrow> js_string \<Rightarrow> js_string \<Rightarrow> payload" where
  "codeSuggestions_payload code format lang =
     \<lparr>model = js ''codellama'',
      messages =
        [\<lparr>role = js ''user'',
          content =
            js ''As an assistant, please review the provided '' @ lang @
            js '' code, focusing on '' @ format\<rparr>,
         \<lparr>role = js ''assistant'',
          content = js ''Hi, please provide the code that you want suggestions for''\<rparr>,
         \<lparr>role = js ''user'', content = code\<rparr>],
      stream = False\<rparr>"

definition codeSuggestions :: "env \<Rightarrow> js_string \<Rightarrow> js_string \<Rightarrow> js_string \<Rightarrow> js_value io" where
  "codeSuggestions e code format lang = makeRequest e (codeSuggestions_payload code format lang)"

definition printCodeSug :: "env \<Rightarrow> js_string \<Rightarrow> js_string \<Rightarrow> js_string \<Rightarrow> js_value io" where
  "printCodeSug e code format lang =
     and_then (codeSuggestions e code format lang)
       (\<lambda>results. and_then (settle (get_prop results (js ''message'')))
          (\<lambda>message. and_then (settle (get_prop message (js ''content'')))
             (\<lambda>text. and_then (emit (Console_log text)) (\<lambda>_. succeed Undefined))))"

subsection \<open>Regular expressions\<close>

text \<open>
  The fragment of the regular-expression language that the module uses: single
  characters, the class \<^verbatim>\<open>\s\<close>, a negated class, the greedy star of one of these,
  and the two ends of the capturing group. A pattern is the list of its terms.
\<close>

datatype re_atom = Lit code_unit | White_space | Not_one_of "code_unit list"

definition is_white_space :: "code_unit \<Rightarrow> bool" where
  "is_white_space c \<longleftrightarrow>
     c \<in> set [0x09, 0x0A, 0x0B, 0x0C, 0x0D, 0x20, 0xA0, 0x1680,
               0x2028, 0x2029, 0x202F, 0x205F, 0x3000, 0xFEFF]
     \<or> (0x2000 \<le> c \<and> c \<le> 0x200A)"

fun atom_matches :: "re_atom \<Rightarrow> code_unit \<Rightarrow> bool" where
  "atom_matches (Lit a) c \<longleftrightarrow> c = a"
| "atom_matches White_space c \<longleftrightarrow> is_white_space c"
| "atom_matches (Not_one_of cs) c \<longleftrightarrow> c \<notin> set cs"

datatype re_term = One re_atom | Star re_atom | Group_open | Group_close

text \<open>
  Matching at a fixed start, with backtracking: \<open>match_here r s i b g\<close> matches the
  pattern \<open>r\<close> against \<open>s\<close>, the input from index \<open>i\<close> on; \<open>b\<close> is where the group
  was opened and \<open>g\<close> the range it captured. A star takes as many characters as it
  can and gives them back one by one while the rest of the pattern fails. The
  result is the index where the match ends and the captured range.
\<close>

fun match_here ::
  "re_term list \<Rightarrow> js_string \<Rightarrow> nat \<Rightarrow> nat option \<Rightarrow> (nat \<times> nat) option \<Rightarrow>
   (nat \<times> (nat \<times> nat) option) option" where
  "match_here [] s i b g = Some (i, g)"
| "match_here (One a # r) [] i b g = None"
| "match_here (One a # r) (c # cs) i b g =
     (if atom_matches a c then match_here r cs (Suc i) b g else None)"
| "match_here (Star a # r) [] i b g = match_here r [] i b g"
| "match_here (Star a # r) (c # cs) i b g =
     (if atom_matches a c then
        (case match_here (Star a # r) cs (Suc i) b g of
           Some m \<Rightarrow> Some m
         | None \<Rightarrow> match_here r (c # cs) i b g)
      else match_here r (c # cs) i b g)"
| "match_here (Group_open # r) s i b g = match_here r s i (Some i) g"
| "match_here (Group_close # r) s i b g =
     match_here r s i b (case b of None \<Rightarrow> g | Some j \<Rightarrow> Some (j, i))"

text \<open>The search tries the start indices from left to right; the first match wins.\<close>

fun search_from ::
  "re_term list \<Rightarrow> js_string \<Rightarrow> nat \<Rightarrow> (nat \<times> nat \<times> (nat \<times> nat) option) option" where
  "search_from r [] i =
     (case match_here r [] i None None of
        Some (e, g) \<Rightarrow> Some (i, e, g)
      | None \<Rightarrow> None)"
| "search_from r (c # cs) i =
     (case match_here r (c # cs) i None None of
        Some (e, g) \<Rightarrow> Some (i, e, g)
      | None \<Rightarrow> search_from r cs (Suc i))"

definition substring :: "js_string \<Rightarrow> nat \<Rightarrow> nat \<Rightarrow> js_string" where
  "substring s b e = take (e - b) (drop b s)"

text \<open>
  The result of \<^verbatim>\<open>text.match(regex)\<close> for a pattern without the global flag:
  \<^verbatim>\<open>null\<close>, or the array of the matched text and the text of group 1
  (\<^verbatim>\<open>undefined\<close> when the group took no part).
\<close>

record re_match =
  index :: nat
  matched :: js_string
  group1 :: "js_string option"

definition string_match :: "js_string \<Rightarrow> re_term list \<Rightarrow> re_match option" where
  "string_match text r =
     (case search_from r text 0 of
        None \<Rightarrow> None
      | Some (i, e, g) \<Rightarrow>
          Some \<lparr>index = i, matched = substring text i e,
                group1 = map_option (\<lambda>(b, e). substring text b e) g\<rparr>)"

subsection \<open>JSON.parse\<close>

text \<open>
  \<^verbatim>\<open>JSON.parse\<close> as the JSON grammar defines it: the text is cut into tokens
  (white space is tab, line feed, carriage return and space), and the tokens are read by
  a machine with a stack of the arrays and objects that are still open. A text outside
  the grammar is a \<^verbatim>\<open>SyntaxError\<close>.
\<close>

datatype token =
    T_lbracket | T_rbracket | T_lbrace | T_rbrace | T_comma | T_colon
  | T_string js_string | T_number rat | T_true | T_false | T_null

definition is_json_space :: "code_unit \<Rightarrow> bool" where
  "is_json_space c \<longleftrightarrow> c \<in> set [0x09, 0x0A, 0x0D, 0x20]"

definition is_digit :: "code_unit \<Rightarrow> bool" where
  "is_digit c \<longleftrightarrow> 0x30 \<le> c \<and> c \<le> 0x39"

definition digit_value :: "code_unit \<Rightarrow> nat" where
  "digit_value c = unat (c - 0x30)"

definition hex_value :: "code_unit \<Rightarrow> nat option" where
  "hex_value c =
     (if is_digit c then Some (digit_value c)
      else if 0x61 \<le> c \<and> c \<le> 0x66 then Some (unat (c - 0x61) + 10)
      else if 0x41 \<le> c \<and> c \<le> 0x46 then Some (unat (c - 0x41) + 10)
      else None)"

definition hex4_value :: "code_unit \<Rightarrow> code_unit \<Rightarrow> code_unit \<Rightarrow> code_unit \<Rightarrow> code_unit option" where
  "hex4_value h1 h2 h3 h4 =
     (case hex_value h1 of None \<Rightarrow> None | Some a \<Rightarrow>
     (case hex_value h2 of None \<Rightarrow> None | Some b \<Rightarrow>
     (case hex_value h3 of None \<Rightarrow> None | Some c \<Rightarrow>
     (case hex_value h4 of None \<Rightarrow> None | Some d \<Rightarrow>
        Some (of_nat (((a * 16 + b) * 16 + c) * 16 + d))))))"

definition escape_char :: "code_unit \<Rightarrow> code_unit option" where
  "escape_char c =
     (if c = 0x22 then Some 0x22
      else if c = 0x5C then Some 0x5C
      else if c = 0x2F then Some 0x2F
      else if c = 0x62 then Some 0x08
      else if c = 0x66 then Some 0x0C
      else if c = 0x6E then Some 0x0A
      else if c = 0x72 then Some 0x0D
      else if c = 0x74 then Some 0x09
      else None)"

text \<open>
  \<open>lex_string s acc\<close> reads a string literal whose opening quote has been consumed;
  it gives the string and the input after the closing quote.
\<close>

fun lex_string :: "js_string \<Rightarrow> js_string \<Rightarrow> (js_string \<times> js_string) option" where
  "lex_string [] acc = None"
| "lex_string (c # cs) acc =
     (if c = 0x22 then Some (acc, cs)
      else if c = 0x5C then
        (case cs of
           [] \<Rightarrow> None
         | e # es \<Rightarrow>
             if e = 0x75 then
               (case es of
                  h1 # h2 # h3 # h4 # rest \<Rightarrow>
                    (case hex4_value h1 h2 h3 h4 of
                       None \<Rightarrow> None
                     | Some u \<Rightarrow> lex_string rest (acc @ [u]))
                | _ \<Rightarrow> None)
             else
               (case escape_char e of
                  None \<Rightarrow> None
                | Some x \<Rightarrow> lex_string es (acc @ [x])))
      else if c < 0x20 then None
      else lex_string cs (acc @ [c]))"

definition digits_value :: "js_string \<Rightarrow> nat" where
  "digits_value ds = foldl (\<lambda>n d. 10 * n + digit_value d) 0 ds"

definition lex_int :: "js_string \<Rightarrow> (js_string \<times> js_string) option" where
  "lex_int s =
     (case s of
        [] \<Rightarrow> None
      | c # cs \<Rightarrow>
          if c = 0x30 then Some ([c], cs)
          else if is_digit c then Some (takeWhile is_digit s, dropWhile is_digit s)
          else None)"

definition lex_frac :: "js_string \<Rightarrow> (js_string \<times> js_string) option" where
  "lex_frac s =
     (case s of
        [] \<Rightarrow> Some ([], s)
      | c # cs \<Rightarrow>
          if c = 0x2E then
            (if takeWhile is_digit cs = [] then None
             else Some (takeWhile is_digit cs, dropWhile is_digit cs))
          else Some ([], s))"

definition lex_exp_digits :: "bool \<Rightarrow> js_string \<Rightarrow> (int \<times> js_string) option" where
  "lex_exp_digits neg s =
     (if takeWhile is_digit s = [] then None
      else Some ((if neg then - 1 else 1) * int (digits_value (takeWhile is_digit s)),
                 dropWhile is_digit s))"

definition lex_exp :: "js_string \<Rightarrow> (int \<times> js_string) option" where
  "lex_exp s =
     (case s of
        [] \<Rightarrow> Some (0, s)
      | c # cs \<Rightarrow>
          if c = 0x65 \<or> c = 0x45 then
            (case cs of
               [] \<Rightarrow> None
             | d # ds \<Rightarrow>
                 if d = 0x2B then lex_exp_digits False ds
                 else if d = 0x2D then lex_exp_digits True ds
                 else lex_exp_digits False cs)
          else Some (0, s))"

definition scale10 :: "rat \<Rightarrow> int \<Rightarrow> rat" where
  "scale10 m e = (if 0 \<le> e then m * 10 ^ nat e else m / 10 ^ nat (- e))"

definition lex_unsigned :: "js_string \<Rightarrow> (rat \<times> js_string) option" where
  "lex_unsigned s =
     (case lex_int s of None \<Rightarrow> None | Some (ip, s1) \<Rightarrow>
     (case lex_frac s1 of None \<Rightarrow> None | Some (fp, s2) \<Rightarrow>
     (case lex_exp s2 of None \<Rightarrow> None | Some (ex, s3) \<Rightarrow>
        Some (scale10 (of_nat (digits_value (ip @ fp))) (ex - int (length fp)), s3))))"

definition lex_number :: "js_string \<Rightarrow> (rat \<times> js_string) option" where
  "lex_number s =
     (case s of
        [] \<Rightarrow> None
      | c # cs \<Rightarrow>
          if c = 0x2D then map_option (\<lambda>(n, rest). (- n, rest)) (lex_unsigned cs)
          else lex_unsigned s)"

text \<open>
  The tokens of a text. After a string or a number the lexer goes on with \<open>rest\<close>,
  the input behind the literal; \<open>rest\<close> is a suffix of \<open>cs\<close>, and the recursive call
  names it as what is left of \<open>cs\<close> once the literal is dropped, which makes the
  recursion visibly decreasing (that the two are equal is \<open>lex_string_drop\<close> and
  \<open>lex_number_drop\<close> below).
\<close>

fun tokenize :: "js_string \<Rightarrow> token list option" where
  "tokenize [] = Some []"
| "tokenize (c # cs) =
     (if is_json_space c then tokenize cs
      else if c = 0x5B then map_option (Cons T_lbracket) (tokenize cs)
      else if c = 0x5D then map_option (Cons T_rbracket) (tokenize cs)
      else if c = 0x7B then map_option (Cons T_lbrace) (tokenize cs)
      else if c = 0x7D then map_option (Cons T_rbrace) (tokenize cs)
      else if c = 0x2C then map_option (Cons T_comma) (tokenize cs)
      else if c = 0x3A then map_option (Cons T_colon) (tokenize cs)
      else if c = 0x22 then
        (case lex_string cs [] of
           None \<Rightarrow> None
         | Some (str, rest) \<Rightarrow>
             map_option (Cons (T_string str)) (tokenize (drop (length cs - length rest) cs)))
      else if c = 0x2D \<or> is_digit c then
        (case lex_number (c # cs) of
           None \<Rightarrow> None
         | Some (n, rest) \<Rightarrow>
             map_option (Cons (T_number n)) (tokenize (drop (length cs - length rest) cs)))
      else if take 4 (c # cs) = js ''true'' then map_option (Cons T_true) (tokenize (drop 3 cs))
      else if take 5 (c # cs) = js ''false'' then map_option (Cons T_false) (tokenize (drop 4 cs))
      else if take 4 (c # cs) = js ''null'' then map_option (Cons T_null) (tokenize (drop 3 cs))
      else None)"

text \<open>
  The machine that reads the tokens. A frame is an array or an object that is still
  open, with what it holds so far (an object also with the key whose value is awaited);
  the stack has the innermost frame first.
\<close>

datatype frame =
    In_array "js_value list"
  | In_object "(js_string \<times> js_value) list" "js_string option"

datatype expect =
    Want_value | Want_value_or_close | Want_key_or_close | Want_key | Want_colon
  | Want_comma_or_close

datatype pstate = Parsing "frame list" expect | Done js_value

fun deliver :: "js_value \<Rightarrow> frame list \<Rightarrow> pstate option" where
  "deliver v [] = Some (Done v)"
| "deliver v (In_array vs # fs) = Some (Parsing (In_array (vs @ [v]) # fs) Want_comma_or_close)"
| "deliver v (In_object ps (Some k) # fs) =
     Some (Parsing (In_object (ps @ [(k, v)]) None # fs) Want_comma_or_close)"
| "deliver v (In_object ps None # fs) = None"

fun scalar :: "token \<Rightarrow> js_value option" where
  "scalar (T_string s) = Some (String s)"
| "scalar (T_number n) = Some (Number n)"
| "scalar T_true = Some (Bool True)"
| "scalar T_false = Some (Bool False)"
| "scalar T_null = Some Null"
| "scalar t = None"

fun begin_value :: "token \<Rightarrow> frame list \<Rightarrow> pstate option" where
  "begin_value T_lbracket fs = Some (Parsing (In_array [] # fs) Want_value_or_close)"
| "begin_value T_lbrace fs = Some (Parsing (In_object [] None # fs) Want_key_or_close)"
| "begin_value t fs = (case scalar t of None \<Rightarrow> None | Some v \<Rightarrow> deliver v fs)"

fun close_array :: "frame list \<Rightarrow> pstate option" where
  "close_array (In_array vs # fs) = deliver (Array vs) fs"
| "close_array fs = None"

fun close_object :: "frame list \<Rightarrow> pstate option" where
  "close_object (In_object ps None # fs) = deliver (Object ps) fs"
| "close_object fs = None"

fun take_key :: "token \<Rightarrow> frame list \<Rightarrow> pstate option" where
  "take_key (T_string k) (In_object ps None # fs) =
     Some (Parsing (In_object ps (Some k) # fs) Want_colon)"
| "take_key t fs = None"

fun after_comma :: "frame list \<Rightarrow> pstate option" where
  "after_comma [] = None"
| "after_comma (In_array vs # fs) = Some (Parsing (In_array vs # fs) Want_value)"
| "after_comma (In_object ps k # fs) = Some (Parsing (In_object ps k # fs) Want_key)"

fun step :: "pstate \<Rightarrow> token \<Rightarrow> pstate option" where
  "step (Done v) t = None"
| "step (Parsing fs Want_value) t = begin_value t fs"
| "step (Parsing fs Want_value_or_close) t =
     (if t = T_rbracket then close_array fs else begin_value t fs)"
| "step (Parsing fs Want_key_or_close) t =
     (if t = T_rbrace then close_object fs else take_key t fs)"
| "step (Parsing fs Want_key) t = take_key t fs"
| "step (Parsing fs Want_colon) t = (if t = T_colon then Some (Parsing fs Want_value) else None)"
| "step (Parsing fs Want_comma_or_close) t =
     (if t = T_comma then after_comma fs
      else if t = T_rbracket then close_array fs
      else if t = T_rbrace then close_object fs
      else None)"

fun run :: "pstate \<Rightarrow> token list \<Rightarrow> pstate option" where
  "run st [] = Some st"
| "run st (t # ts) = (case step st t of None \<Rightarrow> None | Some st' \<Rightarrow> run st' ts)"

definition parse_tokens :: "token list \<Rightarrow> js_value option" where
  "parse_tokens ts =
     (case run (Parsing [] Want_value) ts of
        Some (Done v) \<Rightarrow> Some v
      | _ \<Rightarrow> None)"

definition JSON_parse :: "js_string \<Rightarrow> js_error + js_value" where
  "JSON_parse text =
     (case tokenize text of
        None \<Rightarrow> Inl (SyntaxError (js ''Unexpected token in JSON''))
      | Some ts \<Rightarrow>
          (case parse_tokens ts of
             None \<Rightarrow> Inl (SyntaxError (js ''Unexpected token in JSON''))
           | Some v \<Rightarrow> Inr v))"

subsection \<open>The test creator\<close>

text \<open>The pattern \<^verbatim>\<open>/"test"\s*:\s*(\[[^\]]*\])/\<close>.\<close>

definition regex :: "re_term list" where
  "regex =
     map (One \<circ> Lit) (js ''\"test\"'') @
     [Star White_space, One (Lit 0x3A), Star White_space,
      Group_open, One (Lit 0x5B), Star (Not_one_of [0x5D]), One (Lit 0x5D), Group_close]"

text \<open>
  A string is truthy unless it is empty; \<^verbatim>\<open>undefined\<close> is not.
\<close>

fun truthy :: "js_string option \<Rightarrow> bool" where
  "truthy None \<longleftrightarrow> False"
| "truthy (Some s) \<longleftrightarrow> s \<noteq> []"

text \<open>
  The parameter is documented as a string; on any other value the call
  \<^verbatim>\<open>text.match\<close> throws, since no other value built here has that method.
\<close>

fun extractTestArrayFromText :: "js_value \<Rightarrow> js_value io" where
  "extractTestArrayFromText (String text) =
     (case string_match text regex of
        None \<Rightarrow>
          and_then (emit (Console_error (js ''No test array found in the text.'') None))
            (\<lambda>_. succeed Null)
      | Some match \<Rightarrow>
          if truthy (group1 match) then
            try_catch
              (and_then (settle (JSON_parse (the (group1 match))))
                 (\<lambda>testArray. succeed testArray))
              (\<lambda>error.
                 and_then
                   (emit (Console_error (js ''Failed to parse the extracted array:'') (Some error)))
                   (\<lambda>_. succeed Null))
          else
            and_then (emit (Console_error (js ''No test array found in the text.'') None))
              (\<lambda>_. succeed Null))"
| "extractTestArrayFromText Undefined =
     throw (TypeError (js ''Cannot read properties of undefined''))"
| "extractTestArrayFromText Null =
     throw (TypeError (js ''Cannot read properties of null''))"
| "extractTestArrayFromText v = throw (TypeError (js ''text.match is not a function''))"

text \<open>
  The count is a number; appended to a string it is written in decimal. The model takes
  the whole numbers (below \<open>10\<^sup>2\<^sup>1\<close> in size, where JavaScript switches to the
  exponent form).
\<close>

fun decimal_digits :: "nat \<Rightarrow> js_string" where
  "decimal_digits n =
     (if n < 10 then [0x30 + of_nat n]
      else decimal_digits (n div 10) @ [0x30 + of_nat (n mod 10)])"

definition number_to_string :: "int \<Rightarrow> js_string" where
  "number_to_string n =
     (if n < 0 then 0x2D # decimal_digits (nat (- n)) else decimal_digits (nat n))"

definition makeTestCases_payload :: "js_string \<Rightarrow> js_string \<Rightarrow> int \<Rightarrow> payload" where
  "makeTestCases_payload question format numOfCases =
     \<lparr>model = js ''codellama'',
      messages =
        [\<lparr>role = js ''user'',
          content =
            js ''Without any comments or context, Generate '' @
            number_to_string numOfCases @
            js '' test cases for this question, ('' @
            question @
            js '' ), include cases such as edge cases, large cases. The output should strictly be in JSON format, adhering to the template provided: ( '' @
            format @
            js '' )'' @ [0x0A] @
            js '' *** ONLY RETURN CODE <<<< DO NOT number it or anything, simply return code. Make sure to have'' @
            number_to_string numOfCases @
            js ''  tests cases and all parameters ***''\<rparr>],
      stream = False\<rparr>"

definition makeTestCases :: "env \<Rightarrow> js_string \<Rightarrow> js_string \<Rightarrow> int \<Rightarrow> js_value io" where
  "makeTestCases e question format numOfCases =
     makeRequest e (makeTestCases_payload question format numOfCases)"

definition printTestCases :: "env \<Rightarrow> js_string \<Rightarrow> js_string \<Rightarrow> int \<Rightarrow> js_value io" where
  "printTestCases e question format numOfCases =
     and_then (makeTestCases e question format numOfCases)
       (\<lambda>results. and_then (settle (get_prop results (js ''message'')))
          (\<lambda>message. and_then (settle (get_prop message (js ''content'')))
             (\<lambda>text. and_then (extractTestArrayFromText text)
                (\<lambda>tests. and_then (emit (Console_log results))
                   (\<lambda>_. and_then (emit (Console_log tests)) (\<lambda>_. succeed Undefined))))))"

subsection \<open>Plain text generation\<close>

definition textGen_payload :: "js_string \<Rightarrow> payload" where
  "textGen_payload prompt =
     \<lparr>model = js ''codellama'',
      messages = [\<lparr>role = js ''user'', content = prompt\<rparr>],
      stream = False\<rparr>"

definition textGen :: "env \<Rightarrow> js_string \<Rightarrow> js_value io" where
  "textGen e prompt = makeRequest e (textGen_payload prompt)"

subsection \<open>Observations and sample environments\<close>

text \<open>The requests that a run has handed to \<^verbatim>\<open>fetch\<close>, in order.\<close>

fun requests :: "world \<Rightarrow> http_request list" where
  "requests [] = []"
| "requests (Fetch r # w) = r # requests w"
| "requests (ev # w) = requests w"

text \<open>
  Three environments: one where nothing listens on the port and no file exists, one
  where the endpoint answers with an error status, and one where it answers with a
  chat message of a given content.
\<close>

definition refusing_env :: env where
  "refusing_env =
     \<lparr>fetch = (\<lambda>r. Rejects (SystemError (js ''ECONNREFUSED''))),
      readFile = (\<lambda>p enc. Inl (SystemError (js ''ENOENT'')))\<rparr>"

definition failing_env :: env where
  "failing_env =
     \<lparr>fetch = (\<lambda>r. Resolves \<lparr>ok = False, json = Inr (Object [])\<rparr>),
      readFile = (\<lambda>p enc. Inr (js ''[{ id, hidden, input, output }]''))\<rparr>"

definition answering_env :: "js_string \<Rightarrow> env" where
  "answering_env reply =
     \<lparr>fetch = (\<lambda>r. Resolves
        \<lparr>ok = True,
         json = Inr (Object [(js ''message'',
           Object [(js ''role'', String (js ''assistant'')), (js ''content'', String reply)])])\<rparr>),
      readFile = (\<lambda>p enc. Inr (js ''[{ id, hidden, input, output }]''))\<rparr>"

subsection \<open>The occurrence that the extractor looks for, in words\<close>

text \<open>
  The description of the extractor: the quoted key \<^verbatim>\<open>"test"\<close>, any amount of white
  space, a colon, any amount of white space, and a run of characters between an opening
  and a closing bracket. \<open>starts_test_array s\<close> says that \<open>s\<close> begins with such an
  occurrence, \<open>test_array_occurs text\<close> that one begins somewhere in \<open>text\<close>. These two
  follow the description, not the code; the theorems below relate them to the pattern.
\<close>

definition starts_test_array :: "js_string \<Rightarrow> bool" where
  "starts_test_array s \<longleftrightarrow>
     (\<exists>ws1 ws2 inner rest.
        s = js ''\"test\"'' @ ws1 @ [0x3A] @ ws2 @ [0x5B] @ inner @ [0x5D] @ rest \<and>
        list_all is_white_space ws1 \<and> list_all is_white_space ws2)"

definition test_array_occurs :: "js_string \<Rightarrow> bool" where
  "test_array_occurs text \<longleftrightarrow> (\<exists>n\<le>length text. starts_test_array (drop n text))"

subsection \<open>Measures on values and parser states\<close>

text \<open>
  \<open>arrays_in v\<close> counts the arrays that occur in \<open>v\<close>, at any depth and \<open>v\<close> itself
  included; the count extends to the frames and states of the token machine.
  \<open>bottom_array\<close> holds of a state whose outermost open frame is an array, and of a
  finished state whose value is an array.
\<close>

fun arrays_in :: "js_value \<Rightarrow> nat" where
  "arrays_in (Array vs) = Suc (sum_list (map arrays_in vs))"
| "arrays_in (Object ps) = sum_list (map (\<lambda>p. arrays_in (snd p)) ps)"
| "arrays_in v = 0"

fun arrays_in_frame :: "frame \<Rightarrow> nat" where
  "arrays_in_frame (In_array vs) = sum_list (map arrays_in vs)"
| "arrays_in_frame (In_object ps k) = sum_list (map (\<lambda>p. arrays_in (snd p)) ps)"

fun arrays_in_state :: "pstate \<Rightarrow> nat" where
  "arrays_in_state (Parsing fs ex) = sum_list (map arrays_in_frame fs)"
| "arrays_in_state (Done v) = arrays_in v"

fun bottom_array :: "pstate \<Rightarrow> bool" where
  "bottom_array (Parsing fs ex) \<longleftrightarrow> fs \<noteq> [] \<and> (\<exists>vs. last fs = In_array vs)"
| "bottom_array (Done v) \<longleftrightarrow> (\<exists>vs. v = Array vs)"

section \<open>Properties\<close>

subsection \<open>The lexer goes on behind the literal\<close>

lemma lex_string_suffix: "lex_string s acc = Some (str, rest) \<Longrightarrow> suffix rest s"
proof (induction s acc rule: lex_string.induct)
  case (1 acc)
  then show ?case by simp
next
  case (2 c cs acc)
  then show ?case
    by (auto split: if_splits list.splits option.splits
             simp: suffix_Cons intro: suffix_ConsI)
qed

lemma lex_int_rest: "lex_int s = Some (ds, rest) \<Longrightarrow> s = ds @ rest \<and> ds \<noteq> []"
  by (auto simp: lex_int_def split: list.splits if_splits)

lemma lex_frac_rest: "lex_frac s = Some (ds, rest) \<Longrightarrow> suffix rest s"
  by (auto simp: lex_frac_def split: list.splits if_splits
      intro: suffix_ConsI suffix_dropWhile)

lemma lex_exp_digits_rest: "lex_exp_digits neg s = Some (ex, rest) \<Longrightarrow> suffix rest s"
  by (auto simp: lex_exp_digits_def split: if_splits intro: suffix_dropWhile)

lemma lex_exp_rest: "lex_exp s = Some (ex, rest) \<Longrightarrow> suffix rest s"
  by (auto simp: lex_exp_def split: list.splits if_splits
      dest!: lex_exp_digits_rest intro: suffix_ConsI)

lemma lex_unsigned_rest:
  assumes "lex_unsigned s = Some (n, rest)"
  shows "suffix rest s \<and> length rest < length s"
proof -
  from assms obtain ip s1 fp s2 ex where
    a: "lex_int s = Some (ip, s1)" and b: "lex_frac s1 = Some (fp, s2)"
    and c: "lex_exp s2 = Some (ex, rest)"
    by (auto simp: lex_unsigned_def split: option.splits)
  from a have 1: "suffix s1 s" "length s1 < length s"
    by (auto dest!: lex_int_rest simp: suffix_def)
  from b have 2: "suffix s2 s1" by (rule lex_frac_rest)
  from c have 3: "suffix rest s2" by (rule lex_exp_rest)
  from 1 2 3 have "suffix rest s" by (meson suffix_order.trans)
  moreover from 1 2 3 have "length rest < length s"
    by (meson suffix_length_le le_less_trans le_trans)
  ultimately show ?thesis by simp
qed

lemma lex_number_rest:
  "lex_number s = Some (n, rest) \<Longrightarrow> suffix rest s \<and> length rest < length s"
  by (auto simp: lex_number_def split: list.splits if_splits
      dest!: lex_unsigned_rest intro: suffix_ConsI)

lemma drop_to_suffix: "suffix rest cs \<Longrightarrow> drop (length cs - length rest) cs = rest"
  by (auto simp: suffix_def)

lemma lex_string_drop:
  "lex_string cs acc = Some (str, rest) \<Longrightarrow> drop (length cs - length rest) cs = rest"
  by (rule drop_to_suffix) (rule lex_string_suffix)

lemma lex_number_drop:
  assumes "lex_number (c # cs) = Some (n, rest)"
  shows "drop (length cs - length rest) cs = rest"
proof -
  from lex_number_rest [OF assms] have "suffix rest (c # cs)" "length rest < length (c # cs)"
    by simp_all
  then have "suffix rest cs" by (auto simp: suffix_Cons)
  then show ?thesis by (rule drop_to_suffix)
qed

subsection \<open>The dispatcher\<close>

lemma requests_append: "requests (w @ w') = requests w @ requests w'"
  by (induction w rule: requests.induct) simp_all

text \<open>All the runs of the dispatcher, by what the endpoint does.\<close>

lemma makeRequest_cases:
  "makeRequest e p w =
     (case fetch e (post_request p) of
        Rejects err \<Rightarrow>
          (Inr Null, w @ [Fetch (post_request p), Console_error (js ''Error:'') (Some err)])
      | Resolves r \<Rightarrow>
          if \<not> ok r then
            (Inr Null, w @ [Fetch (post_request p),
               Console_error (js ''Error:'') (Some (Error (js ''Network response was not ok'')))])
          else
            (case json r of
               Inl err \<Rightarrow>
                 (Inr Null, w @ [Fetch (post_request p), Console_error (js ''Error:'') (Some err)])
             | Inr data \<Rightarrow> (Inr data, w @ [Fetch (post_request p)])))"
  by (simp add: makeRequest_def call_fetch_def try_catch_def and_then_def emit_def throw_def
        succeed_def settle_def split: fetch_result.split sum.split)

lemma JSON_stringify_textGen_hi:
  \<open>JSON_stringify (textGen_payload (js ''hi'')) =
     js ''{"model":"codellama","messages":[{"role":"user","content":"hi"}],"stream":false}''\<close>
  by (simp add: JSON_stringify_def textGen_payload_def stringify_turn_def quote_json_string_def
      js_def is_high_surrogate_def is_low_surrogate_def)

text \<open>
  C1. Whatever the payload and whatever the endpoint does, a run of \<open>makeRequest\<close> adds
  exactly one request to those made before it: a POST to
  \<^verbatim>\<open>http://localhost:11434/api/chat\<close> with the JSON content type, whose body is the
  serialization of the payload.
\<close>

theorem makeRequest_posts_once:
  "requests (snd (makeRequest e p w)) =
     requests w @
     [\<lparr>url = js ''http://localhost:11434/api/chat'',
       http_method = js ''POST'',
       headers = [(js ''Content-Type'', js ''application/json'')],
       body = JSON_stringify p\<rparr>]"
  by (simp add: makeRequest_cases requests_append post_request_def endpoint_def
        split: fetch_result.split sum.split)

theorem makeRequest_posts_once_witness:
  \<open>requests (snd (makeRequest (answering_env (js ''ok'')) (textGen_payload (js ''hi'')) [])) =
     [\<lparr>url = js ''http://localhost:11434/api/chat'',
       http_method = js ''POST'',
       headers = [(js ''Content-Type'', js ''application/json'')],
       body = js ''{"model":"codellama","messages":[{"role":"user","content":"hi"}],"stream":false}''\<rparr>]\<close>
  using makeRequest_posts_once [of "answering_env (js ''ok'')" "textGen_payload (js ''hi'')" "[]"]
  by (simp add: JSON_stringify_textGen_hi)

text \<open>
  C2. When \<^verbatim>\<open>fetch\<close> rejects, or resolves with a response whose \<^verbatim>\<open>ok\<close> flag is
  false, \<open>makeRequest\<close> does not throw: it returns \<^verbatim>\<open>null\<close>, and besides the request
  it leaves exactly one line on the error console, carrying the error.
\<close>

theorem makeRequest_failure:
  "(fetch e (post_request p) = Rejects err \<longrightarrow>
      makeRequest e p w =
        (Inr Null, w @ [Fetch (post_request p), Console_error (js ''Error:'') (Some err)])) \<and>
   (fetch e (post_request p) = Resolves r \<and> \<not> ok r \<longrightarrow>
      makeRequest e p w =
        (Inr Null, w @ [Fetch (post_request p),
           Console_error (js ''Error:'') (Some (Error (js ''Network response was not ok'')))]))"
  by (simp add: makeRequest_cases)

theorem makeRequest_failure_witness:
  "makeRequest refusing_env (textGen_payload (js ''hi'')) [] =
     (Inr Null, [Fetch (post_request (textGen_payload (js ''hi''))),
        Console_error (js ''Error:'') (Some (SystemError (js ''ECONNREFUSED'')))]) \<and>
   makeRequest failing_env (textGen_payload (js ''hi'')) [] =
     (Inr Null, [Fetch (post_request (textGen_payload (js ''hi''))),
        Console_error (js ''Error:'') (Some (Error (js ''Network response was not ok'')))])"
  using
    makeRequest_failure [of refusing_env "textGen_payload (js ''hi'')"
      "SystemError (js ''ECONNREFUSED'')" "[]"]
    makeRequest_failure [of failing_env "textGen_payload (js ''hi'')" _ "[]"
      "\<lparr>ok = False, json = Inr (Object [])\<rparr>"]
  by (simp add: refusing_env_def failing_env_def)

subsection \<open>The file loader\<close>

text \<open>
  C6. When the file system delivers the contents of the file, read as UTF-8,
  \<open>loadFileToString\<close> returns exactly that string and logs nothing; when the read fails
  (the path does not exist, say), it returns \<^verbatim>\<open>null\<close> and leaves one line on the
  error console. It throws in neither case.
\<close>

theorem loadFileToString_result:
  "(readFile e filePath (js ''utf8'') = Inr contents \<longrightarrow>
      loadFileToString e filePath w = (Inr (String contents), w)) \<and>
   (readFile e filePath (js ''utf8'') = Inl err \<longrightarrow>
      loadFileToString e filePath w =
        (Inr Null, w @ [Console_error (js ''Error reading file:'') (Some err)]))"
  by (simp add: loadFileToString_def try_catch_def and_then_def settle_def succeed_def emit_def)

theorem loadFileToString_result_witness:
  "loadFileToString failing_env (js ''generate/formats/test.txt'') [] =
     (Inr (String (js ''[{ id, hidden, input, output }]'')), []) \<and>
   loadFileToString refusing_env (js ''generate/formats/none.txt'') [] =
     (Inr Null, [Console_error (js ''Error reading file:'') (Some (SystemError (js ''ENOENT'')))])"
  using
    loadFileToString_result [of failing_env "js ''generate/formats/test.txt''"
      "js ''[{ id, hidden, input, output }]''" "[]"]
    loadFileToString_result [of refusing_env "js ''generate/formats/none.txt''" _ "[]"
      "SystemError (js ''ENOENT'')"]
  by (simp add: refusing_env_def failing_env_def)

subsection \<open>The prompt builders\<close>

lemma number_to_string_10: "number_to_string 10 = js ''10''"
  by (simp add: number_to_string_def js_def)

text \<open>
  C7. For every question \<open>Q\<close> and template \<open>F\<close>, \<open>makeTestCases\<close> with the count 10
  calls the dispatcher with a payload whose list of messages is one turn of the role
  \<^verbatim>\<open>user\<close>; the content of that turn has \<open>Q\<close>, \<open>F\<close> and the text \<^verbatim>\<open>10\<close> as
  contiguous parts.
\<close>

theorem makeTestCases_single_user_turn:
  "\<exists>c. messages (makeTestCases_payload Q F 10) = [\<lparr>role = js ''user'', content = c\<rparr>] \<and>
       sublist Q c \<and> sublist F c \<and> sublist (js ''10'') c \<and>
       makeTestCases e Q F 10 = makeRequest e (makeTestCases_payload Q F 10)"
proof -
  let ?a = "js ''Without any comments or context, Generate ''"
  let ?b = "js '' test cases for this question, (''"
  let ?d = "js '' ), include cases such as edge cases, large cases. The output should strictly be in JSON format, adhering to the template provided: ( ''"
  let ?g = "js '' )'' @ [0x0A] @
            js '' *** ONLY RETURN CODE <<<< DO NOT number it or anything, simply return code. Make sure to have'' @
            js ''10'' @ js ''  tests cases and all parameters ***''"
  let ?c = "?a @ js ''10'' @ ?b @ Q @ ?d @ F @ ?g"
  have m: "messages (makeTestCases_payload Q F 10) = [\<lparr>role = js ''user'', content = ?c\<rparr>]"
    by (simp add: makeTestCases_payload_def number_to_string_10)
  have "sublist Q ((?a @ js ''10'' @ ?b) @ Q @ (?d @ F @ ?g))"
    by (rule sublist_appendI)
  then have q: "sublist Q ?c" by simp
  have "sublist F ((?a @ js ''10'' @ ?b @ Q @ ?d) @ F @ ?g)"
    by (rule sublist_appendI)
  then have f: "sublist F ?c" by simp
  have "sublist (js ''10'') (?a @ js ''10'' @ (?b @ Q @ ?d @ F @ ?g))"
    by (rule sublist_appendI)
  then have n: "sublist (js ''10'') ?c" by simp
  have "makeTestCases e Q F 10 = makeRequest e (makeTestCases_payload Q F 10)"
    by (simp add: makeTestCases_def)
  with m q f n show ?thesis by blast
qed

theorem makeTestCases_single_user_turn_witness:
  "\<exists>c. messages (makeTestCases_payload (js ''all fours?'') (js ''[{ id, input, output }]'') 10) =
         [\<lparr>role = js ''user'', content = c\<rparr>] \<and>
       sublist (js ''all fours?'') c \<and> sublist (js ''[{ id, input, output }]'') c \<and>
       sublist (js ''10'') c \<and>
       makeTestCases refusing_env (js ''all fours?'') (js ''[{ id, input, output }]'') 10 =
         makeRequest refusing_env
           (makeTestCases_payload (js ''all fours?'') (js ''[{ id, input, output }]'') 10)"
  by (rule makeTestCases_single_user_turn)

text \<open>
  C10. The three operations that send a request hand the dispatcher a payload whose
  model name is \<^verbatim>\<open>codellama\<close> and whose streaming flag is false, whatever their
  arguments.
\<close>

theorem payload_model_and_stream:
  "model (codeSuggestions_payload code format lang) = js ''codellama'' \<and>
   stream (codeSuggestions_payload code format lang) = False \<and>
   model (makeTestCases_payload question template n) = js ''codellama'' \<and>
   stream (makeTestCases_payload question template n) = False \<and>
   model (textGen_payload prompt) = js ''codellama'' \<and>
   stream (textGen_payload prompt) = False \<and>
   codeSuggestions e code format lang = makeRequest e (codeSuggestions_payload code format lang) \<and>
   makeTestCases e question template n = makeRequest e (makeTestCases_payload question template n) \<and>
   textGen e prompt = makeRequest e (textGen_payload prompt)"
  by (simp add: codeSuggestions_payload_def makeTestCases_payload_def textGen_payload_def
        codeSuggestions_def makeTestCases_def textGen_def)

theorem payload_model_and_stream_witness:
  \<open>JSON_stringify (codeSuggestions_payload (js ''x = 1'') (js ''style'') (js ''Python'')) =
     js ''{"model":"codellama","messages":[{"role":"user","content":"As an assistant, please review the provided Python code, focusing on style"},{"role":"assistant","content":"Hi, please provide the code that you want suggestions for"},{"role":"user","content":"x = 1"}],"stream":false}'' \<and>
   model (codeSuggestions_payload (js ''x = 1'') (js ''style'') (js ''Python'')) = js ''codellama'' \<and>
   stream (codeSuggestions_payload (js ''x = 1'') (js ''style'') (js ''Python'')) = False\<close>
  using payload_model_and_stream [of "js ''x = 1''" "js ''style''" "js ''Python''"]
  by (simp add: JSON_stringify_def codeSuggestions_payload_def stringify_turn_def
      quote_json_string_def js_def is_high_surrogate_def is_low_surrogate_def)

subsection \<open>The printing call sites\<close>

text \<open>
  C8. Whenever the dispatcher returns \<^verbatim>\<open>null\<close>, \<open>printCodeSug\<close> and
  \<open>printTestCases\<close> read the property \<^verbatim>\<open>message\<close> of that \<^verbatim>\<open>null\<close> and end with an
  uncaught \<^verbatim>\<open>TypeError\<close>; the environment in which nothing listens on the port is such
  an execution.
\<close>

theorem print_null_dereference:
  "(makeRequest e (codeSuggestions_payload code format lang) w = (Inr Null, w') \<longrightarrow>
      printCodeSug e code format lang w =
        (Inl (TypeError (js ''Cannot read properties of null'')), w')) \<and>
   (makeRequest e (makeTestCases_payload question template n) w = (Inr Null, w') \<longrightarrow>
      printTestCases e question template n w =
        (Inl (TypeError (js ''Cannot read properties of null'')), w'))"
  by (simp add: printCodeSug_def codeSuggestions_def printTestCases_def makeTestCases_def
        and_then_def settle_def)

theorem print_null_dereference_witness:
  "printCodeSug refusing_env (js ''x = 1'') (js ''Bug Identification'') (js ''Javascript'') [] =
     (Inl (TypeError (js ''Cannot read properties of null'')),
      [Fetch (post_request
         (codeSuggestions_payload (js ''x = 1'') (js ''Bug Identification'') (js ''Javascript''))),
       Console_error (js ''Error:'') (Some (SystemError (js ''ECONNREFUSED'')))]) \<and>
   printTestCases refusing_env (js ''all fours?'') (js ''[{ id, input, output }]'') 10 [] =
     (Inl (TypeError (js ''Cannot read properties of null'')),
      [Fetch (post_request
         (makeTestCases_payload (js ''all fours?'') (js ''[{ id, input, output }]'') 10)),
       Console_error (js ''Error:'') (Some (SystemError (js ''ECONNREFUSED'')))])"
  using
    print_null_dereference [of refusing_env "js ''x = 1''" "js ''Bug Identification''"
      "js ''Javascript''" "[]" _ "js ''all fours?''" "js ''[{ id, input, output }]''" 10]
  by (simp add: makeRequest_cases refusing_env_def)

subsection \<open>What the pattern matches\<close>

text \<open>
  The literals of the pattern ask for the key; each star of \<^verbatim>\<open>\s\<close> stands before a
  term that no white space satisfies, so that it takes all the white space there is; the
  star of the negated class stops at the first closing bracket.
\<close>

lemma match_lits:
  "match_here (map (One \<circ> Lit) k @ r) s i b g =
     (if prefix k s then match_here r (drop (length k) s) (i + length k) b g else None)"
proof (induction k arbitrary: s i)
  case Nil
  then show ?case by simp
next
  case (Cons a k)
  then show ?case by (cases s) auto
qed

lemma match_star_space:
  assumes "\<And>c cs i. is_white_space c \<Longrightarrow> match_here r (c # cs) i b g = None"
  shows "match_here (Star White_space # r) s i b g =
           match_here r (dropWhile is_white_space s) (i + length (takeWhile is_white_space s)) b g"
proof (induction s arbitrary: i)
  case Nil
  then show ?case by simp
next
  case (Cons c cs)
  then show ?case using assms by (simp split: option.split)
qed

lemma match_tail:
  "match_here [Star (Not_one_of [x]), One (Lit x), Group_close] s i (Some j) g =
     (if x \<in> set s
      then Some (Suc (i + length (takeWhile (\<lambda>c. c \<noteq> x) s)),
                 Some (j, Suc (i + length (takeWhile (\<lambda>c. c \<noteq> x) s))))
      else None)"
  by (induction s arbitrary: i) auto

lemma not_space_colon: "\<not> is_white_space 0x3A"
  by (simp add: is_white_space_def)

lemma not_space_bracket: "\<not> is_white_space 0x5B"
  by (simp add: is_white_space_def)

lemma star_space_colon:
  "match_here (Star White_space # One (Lit 0x3A) # r) s i b g =
     match_here (One (Lit 0x3A) # r) (dropWhile is_white_space s)
       (i + length (takeWhile is_white_space s)) b g"
  by (rule match_star_space) (use not_space_colon in auto)

lemma star_space_group:
  "match_here (Star White_space # Group_open # One (Lit 0x5B) # r) s i b g =
     match_here (Group_open # One (Lit 0x5B) # r) (dropWhile is_white_space s)
       (i + length (takeWhile is_white_space s)) b g"
  by (rule match_star_space) (use not_space_bracket in auto)

lemma length_key: "length (js ''\"test\"'') = 6"
  by (simp add: js_def)

lemma match_one_Some:
  "match_here (One (Lit x) # r) s i b g = Some m \<Longrightarrow>
     \<exists>cs. s = x # cs \<and> match_here r cs (Suc i) b g = Some m"
  by (cases s) (auto split: if_splits)

lemma dropWhile_spaces:
  "list_all is_white_space ws \<Longrightarrow> \<not> is_white_space c \<Longrightarrow>
     dropWhile is_white_space (ws @ c # t) = c # t \<and>
     takeWhile is_white_space (ws @ c # t) = ws"
  by (induction ws) simp_all

lemma match_regex_forward:
  assumes s: "s = js ''\"test\"'' @ ws1 @ [0x3A] @ ws2 @ [0x5B] @ t"
    and w1: "list_all is_white_space ws1" and w2: "list_all is_white_space ws2"
  shows "match_here regex s i None None =
     match_here [Star (Not_one_of [0x5D]), One (Lit 0x5D), Group_close] t
       (i + length (js ''\"test\"'' @ ws1 @ [0x3A] @ ws2 @ [0x5B]))
       (Some (i + length (js ''\"test\"'' @ ws1 @ [0x3A] @ ws2))) None"
proof -
  let ?k = "js ''\"test\"''"
  have d: "drop 6 s = ws1 @ 0x3A # (ws2 @ 0x5B # t)"
    using s length_key by simp
  have p: "prefix ?k s" using s by simp
  note c1 = dropWhile_spaces [OF w1 not_space_colon, of "ws2 @ 0x5B # t"]
  note c2 = dropWhile_spaces [OF w2 not_space_bracket, of t]
  have "match_here regex s i None None =
      match_here [One (Lit 0x3A), Star White_space, Group_open, One (Lit 0x5B),
                  Star (Not_one_of [0x5D]), One (Lit 0x5D), Group_close]
        (0x3A # (ws2 @ 0x5B # t)) (i + 6 + length ws1) None None"
    unfolding regex_def match_lits length_key star_space_colon d using p c1 by simp
  also have "\<dots> =
      match_here [Group_open, One (Lit 0x5B), Star (Not_one_of [0x5D]), One (Lit 0x5D),
                  Group_close]
        (0x5B # t) (Suc (i + 6 + length ws1) + length ws2) None None"
    using c2 by (simp add: star_space_group)
  also have "\<dots> =
      match_here [Star (Not_one_of [0x5D]), One (Lit 0x5D), Group_close] t
        (i + length (?k @ ws1 @ [0x3A] @ ws2 @ [0x5B]))
        (Some (i + length (?k @ ws1 @ [0x3A] @ ws2))) None"
    by (simp add: length_key algebra_simps)
  finally show ?thesis .
qed

lemma match_regex_complete:
  assumes "s = js ''\"test\"'' @ ws1 @ [0x3A] @ ws2 @ [0x5B] @ inner @ [0x5D] @ rest"
    and "list_all is_white_space ws1" and "list_all is_white_space ws2"
  shows "match_here regex s i None None \<noteq> None"
  using match_regex_forward [OF assms, of i] by (simp add: match_tail)

lemma match_regex_exact:
  assumes "s = js ''\"test\"'' @ ws1 @ [0x3A] @ ws2 @ [0x5B] @ inner @ [0x5D] @ rest"
    and "list_all is_white_space ws1" and "list_all is_white_space ws2" and "0x5D \<notin> set inner"
  shows "match_here regex s i None None =
     Some (i + length (js ''\"test\"'' @ ws1 @ [0x3A] @ ws2 @ [0x5B] @ inner @ [0x5D]),
           Some (i + length (js ''\"test\"'' @ ws1 @ [0x3A] @ ws2),
                 i + length (js ''\"test\"'' @ ws1 @ [0x3A] @ ws2 @ [0x5B] @ inner @ [0x5D])))"
proof -
  have t: "takeWhile (\<lambda>c. c \<noteq> 0x5D) (inner @ 0x5D # rest) = inner"
    using assms(4) by (induction inner) auto
  show ?thesis
    using match_regex_forward [OF assms(1-3), of i] by (simp add: match_tail t)
qed

lemma match_regex_sound:
  assumes m: "match_here regex s i None None = Some (e, g)"
  shows "\<exists>ws1 ws2 inner rest.
           s = js ''\"test\"'' @ ws1 @ [0x3A] @ ws2 @ [0x5B] @ inner @ [0x5D] @ rest \<and>
           list_all is_white_space ws1 \<and> list_all is_white_space ws2 \<and> 0x5D \<notin> set inner \<and>
           e = i + length (js ''\"test\"'' @ ws1 @ [0x3A] @ ws2 @ [0x5B] @ inner @ [0x5D]) \<and>
           g = Some (i + length (js ''\"test\"'' @ ws1 @ [0x3A] @ ws2), e)"
proof -
  let ?k = "js ''\"test\"''"
  define s0 where "s0 = drop 6 s"
  define ws1 where "ws1 = takeWhile is_white_space s0"
  define s1 where "s1 = dropWhile is_white_space s0"
  from m have p: "prefix ?k s"
    unfolding regex_def match_lits by (simp split: if_splits)
  then have e0: "s = ?k @ s0"
    unfolding s0_def using length_key by (metis append_eq_conv_conj prefixE)
  from m p have "match_here [One (Lit 0x3A), Star White_space, Group_open, One (Lit 0x5B),
                  Star (Not_one_of [0x5D]), One (Lit 0x5D), Group_close]
        s1 (i + 6 + length ws1) None None = Some (e, g)"
    unfolding regex_def match_lits length_key star_space_colon s1_def ws1_def s0_def by simp
  then obtain s2 where e1: "s1 = 0x3A # s2" and
    m2: "match_here [Star White_space, Group_open, One (Lit 0x5B),
                  Star (Not_one_of [0x5D]), One (Lit 0x5D), Group_close]
        s2 (Suc (i + 6 + length ws1)) None None = Some (e, g)"
    by (blast dest: match_one_Some)
  define ws2 where "ws2 = takeWhile is_white_space s2"
  define s3 where "s3 = dropWhile is_white_space s2"
  from m2 have "match_here [One (Lit 0x5B), Star (Not_one_of [0x5D]), One (Lit 0x5D), Group_close]
        s3 (Suc (i + 6 + length ws1) + length ws2)
        (Some (Suc (i + 6 + length ws1) + length ws2)) None = Some (e, g)"
    unfolding star_space_group s3_def ws2_def by simp
  then obtain s4 where e3: "s3 = 0x5B # s4" and
    m4: "match_here [Star (Not_one_of [0x5D]), One (Lit 0x5D), Group_close]
        s4 (Suc (Suc (i + 6 + length ws1) + length ws2))
        (Some (Suc (i + 6 + length ws1) + length ws2)) None = Some (e, g)"
    by (blast dest: match_one_Some)
  define inner where "inner = takeWhile (\<lambda>c. c \<noteq> 0x5D) s4"
  from m4 have "0x5D \<in> set s4 \<and>
      e = Suc (Suc (Suc (i + 6 + length ws1) + length ws2) + length inner) \<and>
      g = Some (Suc (i + 6 + length ws1) + length ws2, e)"
    unfolding match_tail inner_def by (auto split: if_splits)
  then have mem: "0x5D \<in> set s4"
    and e: "e = Suc (Suc (Suc (i + 6 + length ws1) + length ws2) + length inner)"
    and g: "g = Some (Suc (i + 6 + length ws1) + length ws2, e)"
    by blast+
  from mem obtain rest where e5: "s4 = inner @ 0x5D # rest"
    unfolding inner_def
    by (metis (mono_tags, lifting) dropWhile_eq_Nil_conv hd_dropWhile list.collapse
        takeWhile_dropWhile_id)
  have "s0 = ws1 @ s1" unfolding ws1_def s1_def by simp
  moreover have "s2 = ws2 @ s3" unfolding ws2_def s3_def by simp
  ultimately have eq: "s = ?k @ ws1 @ [0x3A] @ ws2 @ [0x5B] @ inner @ [0x5D] @ rest"
    using e0 e1 e3 e5 by simp
  have w1: "list_all is_white_space ws1" and w2: "list_all is_white_space ws2"
    unfolding ws1_def ws2_def list_all_iff by (auto dest: set_takeWhileD)
  have ni: "0x5D \<notin> set inner" unfolding inner_def by (auto dest: set_takeWhileD)
  have "e = i + length (?k @ ws1 @ [0x3A] @ ws2 @ [0x5B] @ inner @ [0x5D])"
    using e by (simp add: length_key)
  moreover have "g = Some (i + length (?k @ ws1 @ [0x3A] @ ws2), e)"
    using g by (simp add: length_key)
  ultimately show ?thesis using eq w1 w2 ni by blast
qed


lemma search_from_None:
  "search_from r s i = None \<Longrightarrow> n \<le> length s \<Longrightarrow>
     match_here r (drop n s) (i + n) None None = None"
proof (induction s arbitrary: i n)
  case Nil
  then show ?case by (simp split: option.splits)
next
  case (Cons c cs)
  show ?case
  proof (cases n)
    case 0
    with Cons.prems show ?thesis by (simp split: option.splits)
  next
    case (Suc k)
    with Cons.prems have "search_from r cs (Suc i) = None" "k \<le> length cs"
      by (simp_all split: option.splits)
    from Cons.IH [OF this] Suc show ?thesis by simp
  qed
qed

lemma search_from_first:
  "n \<le> length s \<Longrightarrow> match_here r (drop n s) (i + n) None None = Some (e, g) \<Longrightarrow>
   (\<And>j. j < n \<Longrightarrow> match_here r (drop j s) (i + j) None None = None) \<Longrightarrow>
   search_from r s i = Some (i + n, e, g)"
proof (induction n arbitrary: s i)
  case 0
  then show ?case by (cases s) simp_all
next
  case (Suc n)
  from Suc.prems(1) obtain c cs where s: "s = c # cs" by (cases s) auto
  from Suc.prems(3) [of 0] have h: "match_here r (c # cs) i None None = None"
    using s by simp
  have "search_from r cs (Suc i) = Some (Suc i + n, e, g)"
  proof (rule Suc.IH)
    show "n \<le> length cs" using Suc.prems(1) s by simp
    show "match_here r (drop n cs) (Suc i + n) None None = Some (e, g)"
      using Suc.prems(2) s by simp
    show "match_here r (drop j cs) (Suc i + j) None None = None" if "j < n" for j
      using Suc.prems(3) [of "Suc j"] that s by simp
  qed
  with h s show ?case by simp
qed

lemma search_from_Some:
  "search_from r s i = Some (k, e, g) \<Longrightarrow>
     \<exists>n\<le>length s. k = i + n \<and> match_here r (drop n s) k None None = Some (e, g) \<and>
       (\<forall>j<n. match_here r (drop j s) (i + j) None None = None)"
proof (induction s arbitrary: i)
  case Nil
  then show ?case by (auto split: option.splits)
next
  case (Cons c cs)
  show ?case
  proof (cases "match_here r (c # cs) i None None")
    case (Some m)
    with Cons.prems have "k = i + 0 \<and> match_here r (drop 0 (c # cs)) k None None = Some (e, g)"
      by (cases m) auto
    then show ?thesis by blast
  next
    case None
    with Cons.prems have "search_from r cs (Suc i) = Some (k, e, g)" by simp
    from Cons.IH [OF this] obtain n where n: "n \<le> length cs" "k = Suc i + n"
      "match_here r (drop n cs) k None None = Some (e, g)"
      "\<forall>j<n. match_here r (drop j cs) (Suc i + j) None None = None"
      by blast
    have "\<forall>j<Suc n. match_here r (drop j (c # cs)) (i + j) None None = None"
    proof (intro allI impI)
      fix j assume "j < Suc n"
      then show "match_here r (drop j (c # cs)) (i + j) None None = None"
        using None n(4) by (cases j) auto
    qed
    with n(1-3) show ?thesis
      by (intro exI [of _ "Suc n"]) simp
  qed
qed

text \<open>
  The pattern matches at the start of \<open>s\<close> exactly when \<open>s\<close> starts an occurrence in
  the sense of the description.
\<close>

lemma no_match_iff:
  "match_here regex s i None None = None \<longleftrightarrow> \<not> starts_test_array s"
proof
  assume n: "match_here regex s i None None = None"
  show "\<not> starts_test_array s"
  proof
    assume "starts_test_array s"
    then obtain ws1 ws2 inner rest where
      "s = js ''\"test\"'' @ ws1 @ [0x3A] @ ws2 @ [0x5B] @ inner @ [0x5D] @ rest"
      "list_all is_white_space ws1" "list_all is_white_space ws2"
      unfolding starts_test_array_def by blast
    from match_regex_complete [OF this, of i] n show False by simp
  qed
next
  assume no: "\<not> starts_test_array s"
  show "match_here regex s i None None = None"
  proof (cases "match_here regex s i None None")
    case None
    then show ?thesis .
  next
    case (Some r)
    then obtain e g where "match_here regex s i None None = Some (e, g)" by (cases r) auto
    from match_regex_sound [OF this] no show ?thesis
      unfolding starts_test_array_def by blast
  qed
qed

lemma string_match_None_iff:
  "string_match text regex = None \<longleftrightarrow> \<not> test_array_occurs text"
proof
  assume "string_match text regex = None"
  then have n: "search_from regex text 0 = None"
    by (auto simp: string_match_def split: option.splits)
  show "\<not> test_array_occurs text"
    unfolding test_array_occurs_def
    using search_from_None [OF n] no_match_iff by blast
next
  assume no: "\<not> test_array_occurs text"
  show "string_match text regex = None"
  proof (cases "search_from regex text 0")
    case None
    then show ?thesis by (simp add: string_match_def)
  next
    case (Some r)
    then obtain k e g where "search_from regex text 0 = Some (k, e, g)" by (cases r) auto
    from search_from_Some [OF this] obtain n where "n \<le> length text"
      "match_here regex (drop n text) k None None = Some (e, g)" by blast
    then have "starts_test_array (drop n text)"
      using no_match_iff [of "drop n text" k] by auto
    with \<open>n \<le> length text\<close> no show ?thesis
      unfolding test_array_occurs_def by blast
  qed
qed

lemma substring_whole: "substring (a @ m @ r) (length a) (length a + length m) = m"
  by (simp add: substring_def)

lemma substring_group:
  "substring (a @ b @ g @ r) (length a + length b) (length a + (length b + length g)) = g"
  by (simp add: substring_def)

lemma string_match_first:
  assumes t: "text = pre @ js ''\"test\"'' @ ws1 @ [0x3A] @ ws2 @ [0x5B] @ inner @ [0x5D] @ rest"
    and w: "list_all is_white_space ws1" "list_all is_white_space ws2"
    and i: "0x5D \<notin> set inner"
    and first: "\<And>j. j < length pre \<Longrightarrow> \<not> starts_test_array (drop j text)"
  shows "string_match text regex =
           Some \<lparr>index = length pre,
                 matched = js ''\"test\"'' @ ws1 @ [0x3A] @ ws2 @ [0x5B] @ inner @ [0x5D],
                 group1 = Some ([0x5B] @ inner @ [0x5D])\<rparr>"
proof -
  define m0 where "m0 = js ''\"test\"'' @ ws1 @ [0x3A] @ ws2"
  define g where "g = [0x5B] @ inner @ [0x5D]"
  define n where "n = length pre"
  have t': "text = pre @ m0 @ g @ rest"
    unfolding m0_def g_def using t by simp
  have d: "drop n text = js ''\"test\"'' @ ws1 @ [0x3A] @ ws2 @ [0x5B] @ inner @ [0x5D] @ rest"
    unfolding n_def using t by simp
  have l1: "length (js ''\"test\"'' @ ws1 @ [0x3A] @ ws2 @ [0x5B] @ inner @ [0x5D]) =
      length m0 + length g"
    unfolding m0_def g_def by simp
  have l0: "length (js ''\"test\"'' @ ws1 @ [0x3A] @ ws2) = length m0"
    unfolding m0_def by simp
  have m: "match_here regex (drop n text) (0 + n) None None =
      Some (0 + n + (length m0 + length g), Some (0 + n + length m0, 0 + n + (length m0 + length g)))"
    using match_regex_exact [OF d w i, of "0 + n"] unfolding l1 l0 .
  have "search_from regex text 0 =
      Some (0 + n, 0 + n + (length m0 + length g),
            Some (0 + n + length m0, 0 + n + (length m0 + length g)))"
  proof (rule search_from_first [OF _ m])
    show "n \<le> length text" unfolding n_def using t by simp
    show "match_here regex (drop j text) (0 + j) None None = None" if "j < n" for j
      using first [of j] that no_match_iff [of "drop j text" "0 + j"] unfolding n_def by blast
  qed
  then have s: "search_from regex text 0 =
      Some (length pre, length pre + (length m0 + length g),
            Some (length pre + length m0, length pre + (length m0 + length g)))"
    unfolding n_def by simp
  have 1: "substring text (length pre) (length pre + (length m0 + length g)) = m0 @ g"
    using substring_whole [of pre "m0 @ g" rest] t' by simp
  have 2: "substring text (length pre + length m0) (length pre + (length m0 + length g)) = g"
    using substring_group [of pre m0 g rest] t' by simp
  have "string_match text regex =
      Some \<lparr>index = length pre, matched = m0 @ g, group1 = Some g\<rparr>"
    unfolding string_match_def s by (simp add: 1 2)
  then show ?thesis unfolding m0_def g_def by simp
qed

lemma string_match_Some:
  assumes "string_match text regex = Some m"
  shows "\<exists>pre ws1 ws2 inner rest.
           text = pre @ js ''\"test\"'' @ ws1 @ [0x3A] @ ws2 @ [0x5B] @ inner @ [0x5D] @ rest \<and>
           list_all is_white_space ws1 \<and> list_all is_white_space ws2 \<and> 0x5D \<notin> set inner \<and>
           (\<forall>j<length pre. \<not> starts_test_array (drop j text)) \<and>
           m = \<lparr>index = length pre,
                 matched = js ''\"test\"'' @ ws1 @ [0x3A] @ ws2 @ [0x5B] @ inner @ [0x5D],
                 group1 = Some ([0x5B] @ inner @ [0x5D])\<rparr>"
proof -
  from assms obtain r where "search_from regex text 0 = Some r"
    unfolding string_match_def by (cases "search_from regex text 0") simp_all
  then obtain k e g where s: "search_from regex text 0 = Some (k, e, g)"
    by (cases r) auto
  from search_from_Some [OF s] obtain n where n: "n \<le> length text"
    "match_here regex (drop n text) k None None = Some (e, g)"
    "\<forall>j<n. match_here regex (drop j text) (0 + j) None None = None"
    by blast
  from match_regex_sound [OF n(2)] obtain ws1 ws2 inner rest where
    d: "drop n text = js ''\"test\"'' @ ws1 @ [0x3A] @ ws2 @ [0x5B] @ inner @ [0x5D] @ rest"
    and w: "list_all is_white_space ws1" "list_all is_white_space ws2"
    and i: "0x5D \<notin> set inner"
    by blast
  define pre where "pre = take n text"
  have len: "length pre = n" unfolding pre_def using n(1) by simp
  have "text = take n text @ drop n text" by simp
  then have t: "text = pre @ js ''\"test\"'' @ ws1 @ [0x3A] @ ws2 @ [0x5B] @ inner @ [0x5D] @ rest"
    unfolding d pre_def .
  have first: "\<not> starts_test_array (drop j text)" if "j < length pre" for j
  proof -
    from that have "j < n" unfolding len .
    with n(3) have "match_here regex (drop j text) (0 + j) None None = None" by blast
    then show ?thesis by (rule iffD1 [OF no_match_iff])
  qed
  have "string_match text regex =
           Some \<lparr>index = length pre,
                 matched = js ''\"test\"'' @ ws1 @ [0x3A] @ ws2 @ [0x5B] @ inner @ [0x5D],
                 group1 = Some ([0x5B] @ inner @ [0x5D])\<rparr>"
    using t w i first by (rule string_match_first)
  with assms have
    "m = \<lparr>index = length pre,
          matched = js ''\"test\"'' @ ws1 @ [0x3A] @ ws2 @ [0x5B] @ inner @ [0x5D],
          group1 = Some ([0x5B] @ inner @ [0x5D])\<rparr>"
    by (simp only: option.inject)
  with t w i first show ?thesis by blast
qed

subsection \<open>What the parser returns\<close>

lemma deliver_bottom:
  "deliver v fs = Some st \<Longrightarrow> fs \<noteq> [] \<Longrightarrow> last fs = In_array vs \<Longrightarrow> bottom_array st"
  by (induction v fs rule: deliver.induct) (auto split: if_splits)

lemma begin_value_bottom:
  "begin_value t fs = Some st \<Longrightarrow> fs \<noteq> [] \<Longrightarrow> last fs = In_array vs \<Longrightarrow> bottom_array st"
  by (cases t) (auto split: option.splits dest: deliver_bottom)

lemma close_array_bottom:
  "close_array fs = Some st \<Longrightarrow> fs \<noteq> [] \<Longrightarrow> last fs = In_array vs \<Longrightarrow> bottom_array st"
  by (induction fs rule: close_array.induct)
     (auto split: if_splits dest: deliver_bottom)

lemma close_object_bottom:
  "close_object fs = Some st \<Longrightarrow> fs \<noteq> [] \<Longrightarrow> last fs = In_array vs \<Longrightarrow> bottom_array st"
  by (induction fs rule: close_object.induct)
     (auto split: if_splits dest: deliver_bottom)

lemma take_key_bottom:
  "take_key t fs = Some st \<Longrightarrow> fs \<noteq> [] \<Longrightarrow> last fs = In_array vs \<Longrightarrow> bottom_array st"
  by (induction t fs rule: take_key.induct) (auto split: if_splits)

lemma after_comma_bottom:
  "after_comma fs = Some st \<Longrightarrow> fs \<noteq> [] \<Longrightarrow> last fs = In_array vs \<Longrightarrow> bottom_array st"
  by (induction fs rule: after_comma.induct) (auto split: if_splits)

lemma step_bottom: "step st t = Some st' \<Longrightarrow> bottom_array st \<Longrightarrow> bottom_array st'"
  by (induction st t rule: step.induct)
     (auto split: if_splits
           dest: begin_value_bottom close_array_bottom close_object_bottom take_key_bottom
                 after_comma_bottom)

lemma run_bottom: "run st ts = Some st' \<Longrightarrow> bottom_array st \<Longrightarrow> bottom_array st'"
  by (induction ts arbitrary: st) (auto split: option.splits dest: step_bottom)

lemma JSON_parse_bracket:
  assumes "JSON_parse (0x5B # t) = Inr v"
  shows "\<exists>vs. v = Array vs"
proof -
  from assms obtain ts where l: "tokenize (0x5B # t) = Some ts" and p: "parse_tokens ts = Some v"
    by (auto simp: JSON_parse_def split: option.splits)
  from l obtain ts' where ts: "ts = T_lbracket # ts'"
    by (auto simp: is_json_space_def)
  from p ts have "run (Parsing [In_array []] Want_value_or_close) ts' = Some (Done v)"
    by (auto simp: parse_tokens_def split: option.splits pstate.splits)
  from run_bottom [OF this] show ?thesis by simp
qed


lemma deliver_arrays:
  "deliver v fs = Some st \<Longrightarrow>
     arrays_in_state st = arrays_in v + sum_list (map arrays_in_frame fs)"
  by (induction v fs rule: deliver.induct) auto

lemma scalar_arrays: "scalar t = Some v \<Longrightarrow> arrays_in v = 0"
  by (cases t) auto

lemma begin_value_arrays:
  "begin_value t fs = Some st \<Longrightarrow> arrays_in_state st = sum_list (map arrays_in_frame fs)"
  by (cases t) (auto split: option.splits dest!: deliver_arrays scalar_arrays)

lemma close_array_arrays:
  "close_array fs = Some st \<Longrightarrow> arrays_in_state st = Suc (sum_list (map arrays_in_frame fs))"
  by (induction fs rule: close_array.induct) (auto dest!: deliver_arrays)

lemma close_object_arrays:
  "close_object fs = Some st \<Longrightarrow> arrays_in_state st = sum_list (map arrays_in_frame fs)"
  by (induction fs rule: close_object.induct) (auto dest!: deliver_arrays)

lemma take_key_arrays:
  "take_key t fs = Some st \<Longrightarrow> arrays_in_state st = sum_list (map arrays_in_frame fs)"
  by (induction t fs rule: take_key.induct) auto

lemma after_comma_arrays:
  "after_comma fs = Some st \<Longrightarrow> arrays_in_state st = sum_list (map arrays_in_frame fs)"
  by (induction fs rule: after_comma.induct) auto

lemma step_arrays:
  "step st t = Some st' \<Longrightarrow>
     arrays_in_state st' = arrays_in_state st + (if t = T_rbracket then 1 else 0)"
  by (induction st t rule: step.induct)
     (auto split: if_splits
           dest: begin_value_arrays close_array_arrays close_object_arrays take_key_arrays
                 after_comma_arrays)

lemma run_arrays:
  "run st ts = Some st' \<Longrightarrow>
     arrays_in_state st' = arrays_in_state st + length (filter (\<lambda>t. t = T_rbracket) ts)"
  by (induction ts arbitrary: st) (auto split: option.splits dest!: step_arrays)

lemma tokenize_Cons_shape:
  assumes "tokenize (c # cs) = Some ts"
  shows "\<exists>rest ts'. suffix rest cs \<and> tokenize rest = Some ts' \<and>
           (ts = ts' \<or> (\<exists>t. ts = t # ts' \<and> (t = T_rbracket \<longrightarrow> c = 0x5D)))"
proof -
  have a: "\<exists>rest ts'. suffix rest cs \<and> tokenize rest = Some ts' \<and>
           (ts = ts' \<or> (\<exists>t. ts = t # ts' \<and> (t = T_rbracket \<longrightarrow> c = 0x5D)))"
    if "map_option (Cons t) (tokenize (drop n cs)) = Some ts" "t = T_rbracket \<longrightarrow> c = 0x5D" for t n
  proof -
    from that(1) obtain ts' where "tokenize (drop n cs) = Some ts'" "ts = t # ts'" by auto
    with that(2) show ?thesis
      by (intro exI [of _ "drop n cs"] exI [of _ ts']) (simp add: suffix_drop)
  qed
  show ?thesis
  proof (cases "is_json_space c")
    case True
    with assms have "tokenize cs = Some ts" by simp
    then show ?thesis by (intro exI [of _ cs] exI [of _ ts]) simp
  next
    case False
    note sp = this
    show ?thesis
    proof (cases "c \<in> {0x5B, 0x5D, 0x7B, 0x7D, 0x2C, 0x3A}")
      case True
      with sp assms have "\<exists>t. map_option (Cons t) (tokenize (drop 0 cs)) = Some ts \<and>
          (t = T_rbracket \<longrightarrow> c = 0x5D)"
        by (auto split: if_splits)
      then show ?thesis using a by blast
    next
      case False
      note pu = this
      show ?thesis
      proof (cases "c = 0x22")
        case True
        with sp pu assms obtain x and rest :: js_string where
          "map_option (Cons (T_string x)) (tokenize (drop (length cs - length rest) cs)) = Some ts"
          by (simp split: option.splits prod.splits)
        then show ?thesis using a by blast
      next
        case False
        note qu = this
        show ?thesis
        proof (cases "c = 0x2D \<or> is_digit c")
          case True
          with sp pu qu assms obtain x and rest :: js_string where
            "map_option (Cons (T_number x)) (tokenize (drop (length cs - length rest) cs)) = Some ts"
            by (simp split: option.splits prod.splits)
          then show ?thesis using a by blast
        next
          case False
          with sp pu qu assms have
            "map_option (Cons T_true) (tokenize (drop 3 cs)) = Some ts \<or>
             map_option (Cons T_false) (tokenize (drop 4 cs)) = Some ts \<or>
             map_option (Cons T_null) (tokenize (drop 3 cs)) = Some ts"
            by (simp split: if_splits)
          then show ?thesis using a by blast
        qed
      qed
    qed
  qed
qed


lemma filter_suffix_le: "suffix ys xs \<Longrightarrow> length (filter P ys) \<le> length (filter P xs)"
  by (auto simp: suffix_def)

lemma tokenize_closings:
  "tokenize s = Some ts \<Longrightarrow>
     length (filter (\<lambda>t. t = T_rbracket) ts) \<le> length (filter (\<lambda>c. c = 0x5D) s)"
proof (induction "length s" arbitrary: s ts rule: less_induct)
  case less
  show ?case
  proof (cases s)
    case Nil
    with less.prems show ?thesis by simp
  next
    case (Cons c cs)
    with less.prems obtain rest ts' where r: "suffix rest cs" "tokenize rest = Some ts'"
      and t: "ts = ts' \<or> (\<exists>t. ts = t # ts' \<and> (t = T_rbracket \<longrightarrow> c = 0x5D))"
      using tokenize_Cons_shape by blast
    from r(1) Cons have "length rest < length s"
      by (auto dest: suffix_length_le)
    from less.hyps [OF this r(2)]
    have "length (filter (\<lambda>t. t = T_rbracket) ts') \<le> length (filter (\<lambda>c. c = 0x5D) rest)" .
    also have "\<dots> \<le> length (filter (\<lambda>c. c = 0x5D) cs)"
      using r(1) by (rule filter_suffix_le)
    finally have "length (filter (\<lambda>t. t = T_rbracket) ts') \<le> length (filter (\<lambda>c. c = 0x5D) cs)" .
    with t Cons show ?thesis by auto
  qed
qed

lemma JSON_parse_arrays:
  assumes "JSON_parse s = Inr v"
  shows "arrays_in v \<le> length (filter (\<lambda>c. c = 0x5D) s)"
proof -
  from assms obtain ts where l: "tokenize s = Some ts" and p: "parse_tokens ts = Some v"
    by (auto simp: JSON_parse_def split: option.splits)
  from p have "run (Parsing [] Want_value) ts = Some (Done v)"
    by (auto simp: parse_tokens_def split: option.splits pstate.splits)
  from run_arrays [OF this] have "arrays_in v = length (filter (\<lambda>t. t = T_rbracket) ts)"
    by simp
  with tokenize_closings [OF l] show ?thesis by simp
qed

lemma JSON_parse_flat:
  assumes "JSON_parse ([0x5B] @ inner @ [0x5D]) = Inr v" and "0x5D \<notin> set inner"
  shows "\<exists>vs. v = Array vs \<and> list_all (\<lambda>x. arrays_in x = 0) vs"
proof -
  from assms(1) obtain vs where v: "v = Array vs"
    using JSON_parse_bracket [of "inner @ [0x5D]" v] by auto
  have "filter (\<lambda>c. c = 0x5D) inner = []"
    using assms(2) by (auto simp: filter_empty_conv)
  then have "length (filter (\<lambda>c. c = 0x5D) ([0x5B] @ inner @ [0x5D])) = 1" by simp
  with JSON_parse_arrays [OF assms(1)] v have "sum_list (map arrays_in vs) = 0" by simp
  then have "list_all (\<lambda>x. arrays_in x = 0) vs"
    by (simp add: list_all_iff)
  with v show ?thesis by blast
qed

subsection \<open>The extractor\<close>

lemma extract_cases:
  "extractTestArrayFromText (String text) w =
     (case string_match text regex of
        None \<Rightarrow> (Inr Null, w @ [Console_error (js ''No test array found in the text.'') None])
      | Some m \<Rightarrow>
          if truthy (group1 m) then
            (case JSON_parse (the (group1 m)) of
               Inl err \<Rightarrow>
                 (Inr Null,
                  w @ [Console_error (js ''Failed to parse the extracted array:'') (Some err)])
             | Inr v \<Rightarrow> (Inr v, w))
          else (Inr Null, w @ [Console_error (js ''No test array found in the text.'') None]))"
proof (cases "string_match text regex")
  case None
  then show ?thesis
    by (simp add: and_then_def emit_def succeed_def)
next
  case (Some m)
  then show ?thesis
    by (cases "JSON_parse (the (group1 m))")
       (simp_all add: and_then_def try_catch_def emit_def succeed_def settle_def)
qed

text \<open>
  C4. On a text in which the quoted key \<^verbatim>\<open>"test"\<close>, followed by optional white space,
  a colon, optional white space and a bracketed run, does not occur, the extractor
  returns \<^verbatim>\<open>null\<close> and writes one line to the error console; it does not throw.
\<close>

theorem extract_no_occurrence:
  "\<not> test_array_occurs text \<Longrightarrow>
     extractTestArrayFromText (String text) w =
       (Inr Null, w @ [Console_error (js ''No test array found in the text.'') None])"
proof -
  assume "\<not> test_array_occurs text"
  then have "string_match text regex = None" by (simp add: string_match_None_iff)
  then show ?thesis unfolding extract_cases by simp
qed

lemma not_occurs_example: "\<not> test_array_occurs (js ''no key here'')"
  unfolding string_match_None_iff [symmetric]
  by (simp add: string_match_def regex_def js_def)

theorem extract_no_occurrence_witness:
  "extractTestArrayFromText (String (js ''no key here'')) [] =
     (Inr Null, [Console_error (js ''No test array found in the text.'') None])"
  using extract_no_occurrence [OF not_occurs_example, of "[]"] by simp

lemma JSON_parse_123:
  "JSON_parse (js ''[1, 2, 3]'') = Inr (Array [Number 1, Number 2, Number 3])"
  by (simp add: js_def JSON_parse_def parse_tokens_def
      is_json_space_def is_digit_def lex_number_def lex_unsigned_def lex_int_def lex_frac_def
      lex_exp_def scale10_def digits_value_def digit_value_def)

text \<open>
  C3, as stated, fails: the text below contains \<^verbatim>\<open>"test": [1, 2, 3]\<close>, but an earlier
  occurrence of the key matches first and the extractor returns the empty array.
\<close>

theorem extract_any_occurrence_counterexample:
  \<open>sublist (js ''"test": [1, 2, 3]'') (js ''"test": [] "test": [1, 2, 3]'') \<and>
   extractTestArrayFromText (String (js ''"test": [] "test": [1, 2, 3]'')) [] =
     (Inr (Array []), []) \<and>
   fst (extractTestArrayFromText (String (js ''"test": [] "test": [1, 2, 3]'')) []) \<noteq>
     Inr (Array [Number 1, Number 2, Number 3])\<close>
proof (intro conjI)
  have \<open>js ''"test": [] "test": [1, 2, 3]'' = js ''"test": [] '' @ js ''"test": [1, 2, 3]''\<close>
    by (simp add: js_def)
  then show \<open>sublist (js ''"test": [1, 2, 3]'') (js ''"test": [] "test": [1, 2, 3]'')\<close>
    by (metis sublist_append_leftI)
  show r: \<open>extractTestArrayFromText (String (js ''"test": [] "test": [1, 2, 3]'')) [] =
     (Inr (Array []), [])\<close>
    by (simp add: js_def regex_def string_match_def substring_def and_then_def try_catch_def
        settle_def succeed_def emit_def JSON_parse_def parse_tokens_def is_json_space_def
        is_white_space_def)
  show \<open>fst (extractTestArrayFromText (String (js ''"test": [] "test": [1, 2, 3]'')) []) \<noteq>
     Inr (Array [Number 1, Number 2, Number 3])\<close>
    unfolding r by simp
qed

text \<open>
  C3, amended. On a text that contains \<^verbatim>\<open>"test": [1, 2, 3]\<close>, with no occurrence of
  the key followed by a colon and a bracketed run beginning before it, the extractor
  returns the array \<^verbatim>\<open>[1, 2, 3]\<close> and logs nothing.
\<close>

theorem extract_first_occurrence:
  assumes "\<forall>j<length pre. \<not> starts_test_array (drop j (pre @ js ''\"test\": [1, 2, 3]'' @ post))"
  shows "extractTestArrayFromText (String (pre @ js ''\"test\": [1, 2, 3]'' @ post)) w =
           (Inr (Array [Number 1, Number 2, Number 3]), w)"
proof -
  let ?text = "pre @ js ''\"test\": [1, 2, 3]'' @ post"
  have sp: "list_all is_white_space [0x20]" by (simp add: is_white_space_def)
  have t: "?text = pre @ js ''\"test\"'' @ [] @ [0x3A] @ [0x20] @ [0x5B] @ js ''1, 2, 3'' @ [0x5D] @ post"
    by (simp add: js_def)
  have i: "0x5D \<notin> set (js ''1, 2, 3'')" by (simp add: js_def)
  have g: "[0x5B] @ js ''1, 2, 3'' @ [0x5D] = js ''[1, 2, 3]''" by (simp add: js_def)
  have "string_match ?text regex =
      Some \<lparr>index = length pre,
            matched = js ''\"test\"'' @ [] @ [0x3A] @ [0x20] @ [0x5B] @ js ''1, 2, 3'' @ [0x5D],
            group1 = Some (js ''[1, 2, 3]'')\<rparr>"
    using string_match_first [OF t _ sp i] assms unfolding g by simp
  moreover have "js ''[1, 2, 3]'' \<noteq> []" by (simp add: js_def)
  ultimately show ?thesis
    unfolding extract_cases by (simp add: JSON_parse_123)
qed

lemma not_starts_brace: \<open>\<not> starts_test_array (js ''{"test": [1, 2, 3]}'')\<close>
  unfolding no_match_iff [symmetric, of _ 0]
  by (simp add: regex_def js_def)

theorem extract_first_occurrence_witness:
  \<open>extractTestArrayFromText (String (js ''{"test": [1, 2, 3]}'')) [] =
     (Inr (Array [Number 1, Number 2, Number 3]), [])\<close>
proof -
  have e: \<open>js ''{'' @ js ''"test": [1, 2, 3]'' @ js ''}'' = js ''{"test": [1, 2, 3]}''\<close>
    by (simp add: js_def)
  have \<open>\<forall>j<length (js ''{''). \<not> starts_test_array (drop j (js ''{'' @ js ''"test": [1, 2, 3]'' @ js ''}''))\<close>
    unfolding e using not_starts_brace by (simp add: js_def)
  from extract_first_occurrence [OF this, of "[]"] show ?thesis
    unfolding e .
qed

lemma extract_outcome:
  "(\<exists>msg err. extractTestArrayFromText (String text) w = (Inr Null, w @ [Console_error msg err])) \<or>
   (\<exists>vs. extractTestArrayFromText (String text) w = (Inr (Array vs), w) \<and>
         list_all (\<lambda>v. arrays_in v = 0) vs)"
proof (cases "string_match text regex")
  case None
  then show ?thesis unfolding extract_cases by simp
next
  case (Some m)
  from string_match_Some [OF this] obtain inner where
    g: "group1 m = Some ([0x5B] @ inner @ [0x5D])" and i: "0x5D \<notin> set inner"
    by auto
  show ?thesis
  proof (cases "JSON_parse ([0x5B] @ inner @ [0x5D])")
    case (Inl err)
    with Some g show ?thesis unfolding extract_cases by simp
  next
    case (Inr v)
    from JSON_parse_flat [OF this i] obtain vs where
      "v = Array vs" "list_all (\<lambda>x. arrays_in x = 0) vs" by blast
    with Some g Inr show ?thesis unfolding extract_cases by simp
  qed
qed

text \<open>
  C9. The extractor, called on a string, does not throw, and what it returns is
  \<^verbatim>\<open>null\<close> or an array: the captured text begins with an opening bracket, and a
  JSON text that begins so parses to an array or not at all.
\<close>

theorem extract_returns_array:
  "\<exists>v. fst (extractTestArrayFromText (String text) w) = Inr v \<and>
       (v = Null \<or> (\<exists>vs. v = Array vs))"
  using extract_outcome [of "text" w] by auto

theorem extract_returns_array_witness:
  \<open>fst (extractTestArrayFromText
          (String (js ''Here you go: {"test" : [{"id": 1, "hidden": false}]}'')) []) =
     Inr (Array [Object [(js ''id'', Number 1), (js ''hidden'', Bool False)]])\<close>
  using extract_returns_array
    [of "js ''Here you go: {\"test\" : [{\"id\": 1, \"hidden\": false}]}''" "[]"]
  by (simp add: js_def regex_def string_match_def substring_def and_then_def try_catch_def
      settle_def succeed_def emit_def JSON_parse_def parse_tokens_def is_json_space_def
      is_white_space_def is_digit_def lex_number_def lex_unsigned_def lex_int_def lex_frac_def
      lex_exp_def scale10_def digits_value_def digit_value_def)

text \<open>
  C5. The captured text ends at the first closing bracket after its opening bracket.
  Hence, on every text, the extractor either returns \<^verbatim>\<open>null\<close> after writing one line
  to the error console, or returns an array in which no array occurs at any depth; an
  array that has an array among its elements is never returned. On the text
  \<^verbatim>\<open>"test": [[1,2], [3,4]]\<close> the capture is \<^verbatim>\<open>[[1,2]\<close>, and the parse fails.
\<close>

theorem extract_never_nested:
  "(\<forall>m. string_match text regex = Some m \<longrightarrow>
        (\<exists>inner. group1 m = Some ([0x5B] @ inner @ [0x5D]) \<and> 0x5D \<notin> set inner)) \<and>
   ((\<exists>msg err. extractTestArrayFromText (String text) w =
        (Inr Null, w @ [Console_error msg err])) \<or>
    (\<exists>vs. extractTestArrayFromText (String text) w = (Inr (Array vs), w) \<and>
          list_all (\<lambda>v. arrays_in v = 0) vs)) \<and>
   (\<forall>vs us. Array us \<in> set vs \<longrightarrow>
        fst (extractTestArrayFromText (String text) w) \<noteq> Inr (Array vs))"
proof (intro conjI allI impI)
  fix m assume "string_match text regex = Some m"
  from string_match_Some [OF this]
  show "\<exists>inner. group1 m = Some ([0x5B] @ inner @ [0x5D]) \<and> 0x5D \<notin> set inner"
    by auto
next
  show "(\<exists>msg err. extractTestArrayFromText (String text) w =
        (Inr Null, w @ [Console_error msg err])) \<or>
    (\<exists>vs. extractTestArrayFromText (String text) w = (Inr (Array vs), w) \<and>
          list_all (\<lambda>v. arrays_in v = 0) vs)"
    by (rule extract_outcome)
next
  fix vs us assume mem: "Array us \<in> set vs"
  show "fst (extractTestArrayFromText (String text) w) \<noteq> Inr (Array vs)"
  proof
    assume eq: "fst (extractTestArrayFromText (String text) w) = Inr (Array vs)"
    with extract_outcome [of "text" w] have "list_all (\<lambda>v. arrays_in v = 0) vs" by auto
    with mem have "arrays_in (Array us) = 0" unfolding list_all_iff by blast
    then show False by simp
  qed
qed

theorem extract_never_nested_witness:
  \<open>map_option group1 (string_match (js ''"test": [[1,2], [3,4]]'') regex) =
     Some (Some (js ''[[1,2]'')) \<and>
   extractTestArrayFromText (String (js ''"test": [[1,2], [3,4]]'')) [] =
     (Inr Null,
      [Console_error (js ''Failed to parse the extracted array:'')
         (Some (SyntaxError (js ''Unexpected token in JSON'')))])\<close>
  using extract_never_nested [of "js ''\"test\": [[1,2], [3,4]]''" "[]"]
  by (simp add: js_def regex_def string_match_def substring_def and_then_def try_catch_def
      settle_def succeed_def emit_def JSON_parse_def parse_tokens_def is_json_space_def
      is_white_space_def is_digit_def lex_number_def lex_unsigned_def lex_int_def lex_frac_def
      lex_exp_def scale10_def digits_value_def digit_value_def)

end
